theory Spec2Isabelle
  imports Main "HOL-Library.Word"
begin

section \<open>make\_img.py: a Life-like automaton on a toroidal grid\<close>

text \<open>
  The script keeps one global numpy array \<open>grid\<close> of 64-bit integers, advances it with
  \<open>animate_life\<close> (neighbour counting by \<open>np.roll\<close>, next state by indexing the array
  \<open>rules\<close>), seeds it from a list of coordinates and hands \<open>animate_life\<close> to the
  animation writer as its per-frame callback.
\<close>

subsection \<open>Arrays\<close>

text \<open>
  A cell is a numpy \<open>int64\<close>: addition wraps, and a value used as an index is read as a
  signed number. A two-dimensional array is the list of its rows.
\<close>

type_synonym cell = "64 word"
type_synonym grid = "cell list list"

text \<open>
  The exceptions of numpy's indexing. \<open>IndexError\<close>: an index is out of the bounds of
  its axis. \<open>IndexConversionError\<close>: a Python integer given as an index does not fit the
  64-bit signed integer numpy indexes with, and numpy raises while it converts the
  index, before it looks at any bound (at \<open>2^63\<close> the exception is \<open>OverflowError\<close>); the
  class of this exception is not modelled further.
\<close>

datatype error = IndexError | IndexConversionError

text \<open>An array of shape \<open>(H, W)\<close>: \<open>H\<close> rows, each of \<open>W\<close> cells.\<close>

definition shape :: "nat \<Rightarrow> nat \<Rightarrow> grid \<Rightarrow> bool" where
  "shape H W g = (length g = H \<and> list_all (\<lambda>row. length row = W) g)"

text \<open>The cells are the two states, 0 (dead) and 1 (alive).\<close>

definition binary :: "grid \<Rightarrow> bool" where
  "binary g = list_all (list_all (\<lambda>x. x = 0 \<or> x = 1)) g"

text \<open>
  \<open>np.roll\<close> along one axis of length \<open>n\<close>: the shift is reduced modulo \<open>n\<close> (modulo 1
  when the axis is empty), and the last \<open>shift\<close> elements move to the front.
\<close>

definition roll :: "'a list \<Rightarrow> int \<Rightarrow> 'a list" where
  "roll xs shift =
     (let n = length xs;
          k = nat (shift mod (if n = 0 then 1 else int n))
      in drop (n - k) xs @ take (n - k) xs)"

text \<open>
  \<open>np.roll(a, shift, axis)\<close> on a two-dimensional array: axis 0 moves rows, axis 1 moves
  the cells of every row. The script passes no other axis.
\<close>

definition np_roll :: "grid \<Rightarrow> int \<Rightarrow> nat \<Rightarrow> grid" where
  "np_roll a shift axis = (if axis = 0 then roll a shift else map (\<lambda>row. roll row shift) a)"

text \<open>Elementwise \<open>+\<close> of two arrays of one shape.\<close>

definition arr_add :: "grid \<Rightarrow> grid \<Rightarrow> grid" where
  "arr_add a b = map2 (map2 (+)) a b"

text \<open>
  An integer index into an axis of length \<open>n\<close>: a negative index counts from the end,
  and an index outside \<open>[-n, n)\<close> raises \<open>IndexError\<close>.
\<close>

definition norm_index :: "int \<Rightarrow> nat \<Rightarrow> error + nat" where
  "norm_index i n =
     (if - int n \<le> i \<and> i < int n then Inr (nat (if i < 0 then i + int n else i))
      else Inl IndexError)"

subsection \<open>The rule table\<close>

definition rules :: grid where
  "rules = [[0,0,0,1,0,0,0,0,0],[0,0,1,1,0,0,0,0,0]]"

text \<open>One element of \<open>rules[grid, num_neighbors]\<close>: \<open>rules[s, n]\<close> for an integer pair.\<close>

definition rules_at :: "cell \<Rightarrow> cell \<Rightarrow> error + cell" where
  "rules_at s n =
     (case norm_index (sint s) (length rules) of
        Inl e \<Rightarrow> Inl e
      | Inr i \<Rightarrow>
         (case norm_index (sint n) (length (rules ! i)) of
            Inl e \<Rightarrow> Inl e
          | Inr j \<Rightarrow> Inr (rules ! i ! j)))"

text \<open>The first error of a list of results, or all the values.\<close>

fun collect :: "(error + 'a) list \<Rightarrow> error + 'a list" where
  "collect [] = Inr []"
| "collect (Inl e # rs) = Inl e"
| "collect (Inr x # rs) = (case collect rs of Inl e \<Rightarrow> Inl e | Inr xs \<Rightarrow> Inr (x # xs))"

text \<open>
  \<open>rules[a, b]\<close> with two index arrays of one shape: the array of \<open>rules[a[r,c], b[r,c]]\<close>;
  one index out of range fails the whole expression.
\<close>

definition rules_index :: "grid \<Rightarrow> grid \<Rightarrow> error + grid" where
  "rules_index a b =
     collect (map2 (\<lambda>ra rb. collect (map2 rules_at ra rb)) a b)"

subsection \<open>The stepper\<close>

record state =
  grid :: grid
  im_data :: grid

definition von_neumann_neighbors :: "grid \<Rightarrow> grid" where
  "von_neumann_neighbors g =
     arr_add (arr_add (arr_add (np_roll g 1 0) (np_roll g (-1) 0)) (np_roll g 1 1))
             (np_roll g (-1) 1)"

definition diag_neighbors :: "grid \<Rightarrow> grid" where
  "diag_neighbors g =
     arr_add (arr_add (arr_add (np_roll (np_roll g 1 0) 1 1) (np_roll (np_roll g 1 0) (-1) 1))
                      (np_roll (np_roll g (-1) 0) 1 1))
             (np_roll (np_roll g (-1) 0) (-1) 1)"

definition num_neighbors :: "grid \<Rightarrow> grid" where
  "num_neighbors g = arr_add (von_neumann_neighbors g) (diag_neighbors g)"

text \<open>
  \<open>animate_life(n)\<close>: replaces the global \<open>grid\<close> by \<open>rules[grid, num_neighbors]\<close> and
  gives the new grid to the image. The frame number \<open>n\<close> is not read.
\<close>

definition animate_life :: "nat \<Rightarrow> state \<Rightarrow> error + state" where
  "animate_life n s =
     (case rules_index (grid s) (num_neighbors (grid s)) of
        Inl e \<Rightarrow> Inl e
      | Inr g' \<Rightarrow> Inr (s\<lparr>grid := g', im_data := g'\<rparr>))"

subsection \<open>Seeding\<close>

definition GRID_SIZE :: nat where
  "GRID_SIZE = 100"

text \<open>
  The initial grid, \<open>np.random.choice([0], (GRID_SIZE, GRID_SIZE), p=[1])\<close>: every cell
  is drawn from the one-element list \<open>[0]\<close>.
\<close>

definition initial_grid :: grid where
  "initial_grid = replicate GRID_SIZE (replicate GRID_SIZE 0)"

text \<open>A Python integer that fits numpy's index type, a 64-bit signed integer.\<close>

definition fits_intp :: "int \<Rightarrow> bool" where
  "fits_intp i = (- (2 ^ 63) \<le> i \<and> i < 2 ^ 63)"

text \<open>
  \<open>grid[i, j] = v\<close> with Python integers \<open>i\<close> and \<open>j\<close>: both indices are converted to
  numpy's index type first; then each is checked against its own axis, a negative one
  counting from the end.
\<close>

definition set_cell :: "grid \<Rightarrow> int \<Rightarrow> int \<Rightarrow> cell \<Rightarrow> error + grid" where
  "set_cell g i j v =
     (if \<not> fits_intp i \<or> \<not> fits_intp j then Inl IndexConversionError
      else
        case norm_index i (length g) of
          Inl e \<Rightarrow> Inl e
        | Inr r \<Rightarrow>
           (case norm_index j (length (g ! r)) of
              Inl e \<Rightarrow> Inl e
            | Inr c \<Rightarrow> Inr (g[r := (g ! r)[c := v]])))"

text \<open>The loop \<open>for i,j in init_cells: grid[i, j] = 1\<close>; an exception ends it.\<close>

fun bake :: "grid \<Rightarrow> (int \<times> int) list \<Rightarrow> error + grid" where
  "bake g [] = Inr g"
| "bake g ((i, j) # cells) =
     (case set_cell g i j 1 of Inl e \<Rightarrow> Inl e | Inr g' \<Rightarrow> bake g' cells)"

definition shuttle_cells :: "(int \<times> int) list" where
  "shuttle_cells =
     [(48,33),(48,34),(49,33),(49,34),(53,38),(53,39),(53,40),
      (48,66),(48,67),(49,66),(49,67),(53,60),(53,61),(53,62),
      (54,49),(53,49),(52,49),(52,50),(52,51),(53,51),(54,51)]"

definition brain_cells :: "(int \<times> int) list" where
  "brain_cells =
     [(45,43),(45,44),(45,45),(45,55),(45,56),(45,57),
      (46,42),(46,44),(46,46),(46,47),(46,53),(46,54),(46,56),(46,58),
      (47,42),(47,44),(47,46),(47,54),(47,56),(47,58),
      (48,43),(48,45),(48,46),(48,48),(48,49),(48,51),(48,52),(48,54),(48,55),(48,57),
      (49,47),(49,49),(49,51),(49,53),
      (50,45),(50,47),(50,49),(50,51),(50,53),(50,55),
      (51,44),(51,45),(51,47),(51,49),(51,51),(51,53),(51,55),(51,56),
      (52,44),(52,45),(52,46),(52,49),(52,51),(52,54),(52,55),(52,56),
      (53,44),(53,45),(53,48),(53,52),(53,55),(53,56),
      (54,43),(54,48),(54,49),(54,51),(54,52),(54,57),
      (55,43),(55,57)]"

subsection \<open>The frame loop\<close>


subsection \<open>The script\<close>

text \<open>
  \<open>str.upper\<close> belongs to Python, not to the script: \<open>main\<close> below takes it as the
  parameter \<open>str_upper\<close>. On ASCII text it is \<open>upper\<close>: the letters a to z become A to
  Z and every other byte stays.
\<close>

definition upper_char :: "char \<Rightarrow> char" where
  "upper_char ch =
     (let k = (of_char ch :: nat) in if 97 \<le> k \<and> k \<le> 122 then char_of (k - 32) else ch)"

definition upper :: "string \<Rightarrow> string" where
  "upper s = map upper_char s"

definition valid_patterns :: "string list" where
  "valid_patterns = [''SHUTTLES'', ''BRAIN'']"

text \<open>What \<open>print\<close> was given: a string, or a list of strings.\<close>

datatype printed = PStr string | PList "string list"

text \<open>
  How far the script itself gets: \<open>sys.exit\<close> after some output, with the exit status
  (\<open>sys.exit()\<close> without an argument is status 0); an uncaught exception of the seeding;
  or the last two lines, where it gives matplotlib the callback \<open>animate_life\<close>, the
  frame count, the state it has built and the name of the file to save. What
  matplotlib does with them is not part of the script.
\<close>

datatype outcome =
    Exit "printed list" int
  | Raised error
  | Animate string nat state

definition usage :: "printed list" where
  "usage = [PStr ''Please provide a pattern from the list below as an argument:'',
            PList valid_patterns]"

text \<open>The script from top to bottom; \<open>args\<close> is \<open>sys.argv\<close>.\<close>

definition main :: "(string \<Rightarrow> string) \<Rightarrow> string list \<Rightarrow> outcome" where
  "main str_upper args =
     (if length args \<noteq> 2 then Exit usage 0
      else if str_upper (args ! 1) \<notin> set valid_patterns then Exit usage 0
      else
        let PATTERN = str_upper (args ! 1);
            im0 = initial_grid;
            (init_cells, outfile, frames) =
              (if PATTERN = ''SHUTTLES'' then (shuttle_cells, ''img/shuttles.gif'', 300)
               else if PATTERN = ''BRAIN'' then (brain_cells, ''img/brain.gif'', 300)
               else ([], [], 0))
        in case bake initial_grid init_cells of
             Inl e \<Rightarrow> Raised e
           | Inr g \<Rightarrow> Animate outfile frames \<lparr>grid = g, im_data = im0\<rparr>)"

subsection \<open>Reference definitions\<close>

text \<open>Index \<open>i\<close> taken modulo the length \<open>n\<close> of an axis.\<close>

definition wrap :: "int \<Rightarrow> nat \<Rightarrow> nat" where
  "wrap i n = nat (i mod int n)"

text \<open>The Moore neighbourhood: four orthogonal and four diagonal offsets.\<close>

definition moore_offsets :: "(int \<times> int) list" where
  "moore_offsets = [(-1, 0), (1, 0), (0, -1), (0, 1), (-1, -1), (-1, 1), (1, -1), (1, 1)]"

text \<open>The eight neighbours of cell \<open>(r, c)\<close> on the torus of \<open>H\<close> rows and \<open>W\<close> columns.\<close>

definition neighbours :: "nat \<Rightarrow> nat \<Rightarrow> nat \<Rightarrow> nat \<Rightarrow> (nat \<times> nat) list" where
  "neighbours H W r c = map (\<lambda>(dr, dc). (wrap (int r + dr) H, wrap (int c + dc) W)) moore_offsets"

text \<open>The reference count: the sum of the eight neighbours, read by modulo indexing.\<close>

definition moore_count :: "nat \<Rightarrow> nat \<Rightarrow> grid \<Rightarrow> nat \<Rightarrow> nat \<Rightarrow> cell" where
  "moore_count H W g r c = sum_list (map (\<lambda>(r', c'). g ! r' ! c') (neighbours H W r c))"

text \<open>
  The reference synchronous update: every cell of the new grid is looked up from the
  cell's own state and its reference count, both read in the grid before the step.
\<close>

definition sync_step :: "nat \<Rightarrow> nat \<Rightarrow> grid \<Rightarrow> error + grid" where
  "sync_step H W g =
     collect (map (\<lambda>r. collect (map (\<lambda>c. rules_at (g ! r ! c) (moore_count H W g r c)) [0..<W]))
                  [0..<H])"

text \<open>
  A grid whose live cells are one 2 by 2 block on the torus: rows \<open>r0\<close> and
  \<open>r0 + 1\<close>, columns \<open>c0\<close> and \<open>c0 + 1\<close>, both taken modulo the grid's size.
\<close>

definition block_grid :: "nat \<Rightarrow> nat \<Rightarrow> nat \<Rightarrow> nat \<Rightarrow> grid" where
  "block_grid H W r0 c0 =
     map (\<lambda>r. map (\<lambda>c. if (r = r0 \<or> r = Suc r0 mod H) \<and> (c = c0 \<or> c = Suc c0 mod W)
                        then 1 else 0) [0..<W]) [0..<H]"


section \<open>Properties\<close>

subsection \<open>Rolling and adding arrays\<close>

lemma length_roll: "length (roll xs s) = length xs"
  by (auto simp: roll_def Let_def)

lemma roll_nth:
  assumes "i < length xs"
  shows "roll xs s ! i = xs ! nat ((int i - s) mod int (length xs))"
proof -
  define n where "n = length xs"
  define k where "k = nat (s mod int n)"
  have n: "0 < n" "i < n" using assms by (auto simp: n_def)
  have sm: "0 \<le> s mod int n" "s mod int n < int n" using n by simp_all
  have k: "k < n" "int k = s mod int n" using sm by (simp_all add: k_def nat_less_iff)
  have r: "roll xs s = drop (n - k) xs @ take (n - k) xs"
    using n by (simp add: roll_def Let_def n_def k_def)
  have m: "(int i - s) mod int n = (int i - int k) mod int n"
    unfolding k(2) by (simp add: mod_diff_right_eq)
  show ?thesis
  proof (cases "i < k")
    case True
    have "(int i - int k) mod int n = (int i - int k + int n) mod int n"
      by simp
    also have "\<dots> = int i - int k + int n"
      using True n k(1) by (intro mod_pos_pos_trivial) simp_all
    finally have "(int i - int k) mod int n = int i - int k + int n" .
    then have "nat ((int i - s) mod int n) = n - k + i"
      using m True k(1) by simp
    moreover have "roll xs s ! i = xs ! (n - k + i)"
      using True k(1) n by (simp add: r nth_append n_def)
    ultimately show ?thesis by (simp add: n_def)
  next
    case False
    have "(int i - int k) mod int n = int i - int k"
      using False n by simp
    then have "nat ((int i - s) mod int n) = i - k"
      using m False by simp
    moreover have "roll xs s ! i = xs ! (i - k)"
      using False k(1) n by (simp add: r nth_append n_def)
    ultimately show ?thesis by (simp add: n_def)
  qed
qed

lemma shape_nth: "shape H W g \<Longrightarrow> r < H \<Longrightarrow> length (g ! r) = W"
  by (simp add: shape_def list_all_length)

lemma shape_length: "shape H W g \<Longrightarrow> length g = H"
  by (simp add: shape_def)

lemma shapeI: "length g = H \<Longrightarrow> (\<And>r. r < H \<Longrightarrow> length (g ! r) = W) \<Longrightarrow> shape H W g"
  by (simp add: shape_def list_all_length)

lemma wrap_less: "0 < n \<Longrightarrow> wrap i n < n"
  by (simp add: wrap_def nat_less_iff)

lemma wrap_id: "i < n \<Longrightarrow> wrap (int i) n = i"
  by (simp add: wrap_def)

lemma roll_nth_wrap: "i < length xs \<Longrightarrow> roll xs s ! i = xs ! wrap (int i - s) (length xs)"
  by (simp add: roll_nth wrap_def)

lemma shape_np_roll: "shape H W g \<Longrightarrow> shape H W (np_roll g s ax)"
  by (auto simp: np_roll_def length_roll roll_nth_wrap wrap_less shape_nth shape_length intro!: shapeI)

lemma np_roll0_nth:
  "shape H W g \<Longrightarrow> r < H \<Longrightarrow> np_roll g s 0 ! r = g ! wrap (int r - s) H"
  by (simp add: np_roll_def roll_nth_wrap shape_length)

lemma np_roll1_nth:
  "shape H W g \<Longrightarrow> r < H \<Longrightarrow> c < W \<Longrightarrow> np_roll g s (Suc 0) ! r ! c = g ! r ! wrap (int c - s) W"
  by (simp add: np_roll_def roll_nth_wrap shape_length shape_nth)

lemma shape_arr_add: "shape H W a \<Longrightarrow> shape H W b \<Longrightarrow> shape H W (arr_add a b)"
  by (auto simp: arr_add_def shape_nth shape_length intro!: shapeI)

lemma arr_add_nth:
  "shape H W a \<Longrightarrow> shape H W b \<Longrightarrow> r < H \<Longrightarrow> c < W \<Longrightarrow>
   arr_add a b ! r ! c = a ! r ! c + b ! r ! c"
  by (simp add: arr_add_def shape_nth shape_length)

lemma shape_num_neighbors: "shape H W g \<Longrightarrow> shape H W (num_neighbors g)"
  by (simp add: num_neighbors_def von_neumann_neighbors_def diag_neighbors_def
      shape_arr_add shape_np_roll)

lemma num_neighbors_nth:
  assumes "shape H W g" "r < H" "c < W"
  shows "num_neighbors g ! r ! c = moore_count H W g r c"
proof -
  have H: "0 < H" and W: "0 < W" using assms by auto
  note sh = assms(1) shape_np_roll shape_arr_add
  note wl = wrap_less [OF H] wrap_less [OF W]
  note nth = arr_add_nth [where H=H and W=W] np_roll0_nth [where H=H and W=W]
    np_roll1_nth [where H=H and W=W]
  show ?thesis
    using assms(2,3)
    by (simp add: num_neighbors_def von_neumann_neighbors_def diag_neighbors_def
        nth sh wl moore_count_def neighbours_def moore_offsets_def wrap_id ac_simps)
qed

text \<open>
  C2. For every grid of shape \<open>(H, W)\<close> and every cell \<open>(r, c)\<close>, the count the stepper
  computes with \<open>np.roll\<close> is the sum of the eight Moore neighbours read by indices taken
  modulo \<open>H\<close> and \<open>W\<close>. In particular cell \<open>(0, 0)\<close> is among the neighbours of
  \<open>(H - 1, W - 1)\<close>, of \<open>(H - 1, 0)\<close> and of \<open>(0, W - 1)\<close>.
\<close>

theorem num_neighbors_toroidal:
  assumes "shape H W g" "r < H" "c < W"
  shows "num_neighbors g ! r ! c = moore_count H W g r c
         \<and> (0, 0) \<in> set (neighbours H W (H - 1) (W - 1))
         \<and> (0, 0) \<in> set (neighbours H W (H - 1) 0)
         \<and> (0, 0) \<in> set (neighbours H W 0 (W - 1))"
proof -
  have "int (H - 1) + 1 = int H" "int (W - 1) + 1 = int W"
    using assms by simp_all
  then have "wrap (int (H - 1) + 1) H = 0" "wrap (int (W - 1) + 1) W = 0" "wrap 0 H = 0" "wrap 0 W = 0"
    by (simp_all add: wrap_def)
  then show ?thesis
    using assms by (simp add: num_neighbors_nth neighbours_def moore_offsets_def image_iff)
qed

theorem num_neighbors_toroidal_witness:
  "num_neighbors [[1, 0, 0], [0, 0, 0], [0, 0, 0]] ! 2 ! 2
     = moore_count 3 3 [[1, 0, 0], [0, 0, 0], [0, 0, 0]] 2 2
   \<and> moore_count 3 3 [[1, 0, 0], [0, 0, 0], [0, 0, 0]] 2 2 = 1
   \<and> (0, 0) \<in> set (neighbours 3 3 2 2)"
  using num_neighbors_toroidal [of 3 3 "[[1, 0, 0], [0, 0, 0], [0, 0, 0]]" 2 2]
  by (simp add: shape_def moore_count_def neighbours_def moore_offsets_def wrap_def)

subsection \<open>The step as a synchronous update\<close>

lemma map2_upt:
  "length xs = n \<Longrightarrow> length ys = n \<Longrightarrow> map2 f xs ys = map (\<lambda>i. f (xs ! i) (ys ! i)) [0..<n]"
  by (rule nth_equalityI) simp_all

lemma rules_index_upt:
  assumes "shape H W a" "shape H W b"
  shows "rules_index a b =
         collect (map (\<lambda>r. collect (map (\<lambda>c. rules_at (a ! r ! c) (b ! r ! c)) [0..<W])) [0..<H])"
proof -
  have "map2 (\<lambda>ra rb. collect (map2 rules_at ra rb)) a b =
        map (\<lambda>r. collect (map2 rules_at (a ! r) (b ! r))) [0..<H]"
    using assms by (simp add: map2_upt shape_length)
  also have "\<dots> = map (\<lambda>r. collect (map (\<lambda>c. rules_at (a ! r ! c) (b ! r ! c)) [0..<W])) [0..<H]"
    using assms by (intro map_cong refl arg_cong [where f=collect] map2_upt) (simp_all add: shape_nth)
  finally show ?thesis by (simp add: rules_index_def)
qed

lemma rules_index_sync_step:
  assumes "shape H W g"
  shows "rules_index g (num_neighbors g) = sync_step H W g"
proof -
  have "map (\<lambda>r. collect (map (\<lambda>c. rules_at (g ! r ! c) (num_neighbors g ! r ! c)) [0..<W])) [0..<H]
      = map (\<lambda>r. collect (map (\<lambda>c. rules_at (g ! r ! c) (moore_count H W g r c)) [0..<W])) [0..<H]"
    using assms by (intro map_cong refl arg_cong [where f=collect]) (simp add: num_neighbors_nth)
  then show ?thesis
    unfolding rules_index_upt [OF assms shape_num_neighbors [OF assms]] sync_step_def
    by (rule arg_cong)
qed

text \<open>
  C3. The step is synchronous: for every grid of shape \<open>(H, W)\<close>, \<open>animate_life\<close> returns
  the reference synchronous update, in which each new cell is looked up from the cell's
  state and its eight neighbours' states in the grid before the step; the new grid also
  becomes the image's data. An index error of the reference is the step's error.
\<close>

theorem animate_life_synchronous:
  assumes "shape H W (grid s)"
  shows "animate_life n s =
         (case sync_step H W (grid s) of
            Inl e \<Rightarrow> Inl e
          | Inr g' \<Rightarrow> Inr \<lparr>grid = g', im_data = g'\<rparr>)"
  using assms by (simp add: animate_life_def rules_index_sync_step split: sum.splits)

theorem animate_life_synchronous_witness:
  "animate_life 0 \<lparr>grid = [[0, 1, 0], [0, 1, 0], [0, 1, 0], [0, 0, 0]], im_data = []\<rparr>
     = (case sync_step 4 3 [[0, 1, 0], [0, 1, 0], [0, 1, 0], [0, 0, 0]] of
          Inl e \<Rightarrow> Inl e
        | Inr g' \<Rightarrow> Inr \<lparr>grid = g', im_data = g'\<rparr>)
   \<and> sync_step 4 3 [[0, 1, 0], [0, 1, 0], [0, 1, 0], [0, 0, 0]]
     = Inr [[0, 0, 0], [1, 1, 1], [0, 0, 0], [0, 0, 0]]"
  using animate_life_synchronous
    [of 4 3 "\<lparr>grid = [[0, 1, 0], [0, 1, 0], [0, 1, 0], [0, 0, 0]], im_data = []\<rparr>" 0]
  by (simp add: shape_def sync_step_def moore_count_def neighbours_def moore_offsets_def
      wrap_def rules_at_def rules_def norm_index_def upt_rec)

subsection \<open>Binary grids stay binary\<close>

lemma cell_cases:
  fixes n :: cell
  assumes "unat n \<le> 8"
  shows "n \<in> {0, 1, 2, 3, 4, 5, 6, 7, 8}"
proof -
  have eq: "n = word_of_nat k" if "unat n = k" for k
    using that by auto
  have "unat n \<in> {0, 1, 2, 3, 4, 5, 6, 7, 8}"
    using assms by auto
  then show ?thesis
    by (auto dest!: eq)
qed

lemma unat_sum_list_le:
  fixes xs :: "cell list"
  assumes "list_all (\<lambda>x. x = 0 \<or> x = 1) xs"
  shows "unat (sum_list xs) \<le> length xs"
  using assms
proof (induction xs)
  case Nil
  then show ?case by simp
next
  case (Cons x xs)
  have "unat (x + sum_list xs) \<le> unat x + unat (sum_list xs)"
    by (simp add: unat_word_ariths)
  moreover have "unat x \<le> 1" using Cons.prems by auto
  moreover have "unat (sum_list xs) \<le> length xs" using Cons by simp
  ultimately show ?case by simp
qed

lemma rules_at_binary:
  assumes "s = 0 \<or> s = 1" "unat n \<le> 8"
  shows "\<exists>v. rules_at s n = Inr v \<and> (v = 0 \<or> v = 1)"
  using assms(1) cell_cases [OF assms(2)]
  by (auto simp: rules_at_def rules_def norm_index_def)

lemma sint_small:
  fixes n :: cell
  assumes "unat n \<le> 8"
  shows "0 \<le> sint n \<and> sint n \<le> 8"
  using cell_cases [OF assms] by auto

lemma binary_nth:
  "binary g \<Longrightarrow> shape H W g \<Longrightarrow> r < H \<Longrightarrow> c < W \<Longrightarrow> g ! r ! c = 0 \<or> g ! r ! c = 1"
  by (simp add: binary_def shape_def list_all_length)

lemma moore_count_le:
  assumes "binary g" "shape H W g" "r < H" "c < W"
  shows "unat (moore_count H W g r c) \<le> 8"
proof -
  have H: "0 < H" and W: "0 < W" using assms by auto
  have "list_all (\<lambda>x. x = 0 \<or> x = 1) (map (\<lambda>(r', c'). g ! r' ! c') (neighbours H W r c))"
    by (simp add: neighbours_def moore_offsets_def
        binary_nth [OF assms(1,2)] wrap_less [OF H] wrap_less [OF W])
  from unat_sum_list_le [OF this] show ?thesis
    by (simp add: moore_count_def neighbours_def moore_offsets_def)
qed

lemma collect_all_Inr:
  assumes "list_all (\<lambda>r. \<exists>v. r = Inr v \<and> P v) rs"
  shows "\<exists>xs. collect rs = Inr xs \<and> length xs = length rs \<and> list_all P xs"
  using assms
proof (induction rs)
  case Nil
  then show ?case by simp
next
  case (Cons r rs)
  then obtain v xs where "r = Inr v" "P v" "collect rs = Inr xs" "length xs = length rs" "list_all P xs"
    by auto
  then show ?case by simp
qed

lemma sync_step_binary:
  assumes "shape H W g" "binary g"
  shows "\<exists>g'. sync_step H W g = Inr g' \<and> shape H W g' \<and> binary g'"
proof -
  let ?row = "\<lambda>r. collect (map (\<lambda>c. rules_at (g ! r ! c) (moore_count H W g r c)) [0..<W])"
  have row: "\<exists>xs. ?row r = Inr xs \<and> (length xs = W \<and> list_all (\<lambda>x. x = 0 \<or> x = 1) xs)"
    if "r < H" for r
  proof -
    have "list_all (\<lambda>x. \<exists>v. x = Inr v \<and> (v = 0 \<or> v = 1))
            (map (\<lambda>c. rules_at (g ! r ! c) (moore_count H W g r c)) [0..<W])"
      using that assms
      by (simp add: list_all_length rules_at_binary binary_nth moore_count_le)
    from collect_all_Inr [OF this] show ?thesis by auto
  qed
  have "list_all (\<lambda>x. \<exists>v. x = Inr v \<and> (length v = W \<and> list_all (\<lambda>x. x = 0 \<or> x = 1) v))
          (map ?row [0..<H])"
    using row by (simp add: list_all_length)
  from collect_all_Inr [OF this]
  obtain g' where "collect (map ?row [0..<H]) = Inr g'" "length g' = H"
    "list_all (\<lambda>v. length v = W \<and> list_all (\<lambda>x. x = 0 \<or> x = 1) v) g'"
    by auto
  then show ?thesis
    by (auto simp: sync_step_def shape_def binary_def list_all_length)
qed

text \<open>
  C4. For every grid of shape \<open>(H, W)\<close> whose cells are all 0 or 1: at every cell the
  current state is 0 or 1 and the neighbour count the stepper computes lies between 0
  and 8, so the lookup in the 2 by 9 rule table raises no \<open>IndexError\<close>; the step
  succeeds, and the new grid has the same shape and again only cells 0 and 1.
\<close>

theorem animate_life_in_bounds:
  assumes "shape H W (grid s)" "binary (grid s)"
  shows "(\<forall>r<H. \<forall>c<W.
            (grid s ! r ! c = 0 \<or> grid s ! r ! c = 1)
            \<and> 0 \<le> sint (num_neighbors (grid s) ! r ! c)
            \<and> sint (num_neighbors (grid s) ! r ! c) \<le> 8
            \<and> (\<exists>v. rules_at (grid s ! r ! c) (num_neighbors (grid s) ! r ! c) = Inr v))
         \<and> (\<exists>s'. animate_life n s = Inr s' \<and> shape H W (grid s') \<and> binary (grid s'))"
proof -
  have cell: "(grid s ! r ! c = 0 \<or> grid s ! r ! c = 1)
            \<and> 0 \<le> sint (num_neighbors (grid s) ! r ! c)
            \<and> sint (num_neighbors (grid s) ! r ! c) \<le> 8
            \<and> (\<exists>v. rules_at (grid s ! r ! c) (num_neighbors (grid s) ! r ! c) = Inr v)"
    if "r < H" "c < W" for r c
  proof -
    have b: "grid s ! r ! c = 0 \<or> grid s ! r ! c = 1"
      using that by (rule binary_nth [OF assms(2,1)])
    have n: "unat (num_neighbors (grid s) ! r ! c) \<le> 8"
      using that by (simp add: num_neighbors_nth [OF assms(1)] moore_count_le [OF assms(2,1)])
    from rules_at_binary [OF b n] sint_small [OF n] b show ?thesis by blast
  qed
  obtain g' where "sync_step H W (grid s) = Inr g'" "shape H W g'" "binary g'"
    using sync_step_binary [OF assms] by blast
  then have "\<exists>s'. animate_life n s = Inr s' \<and> shape H W (grid s') \<and> binary (grid s')"
    using assms(1) by (simp add: animate_life_def rules_index_sync_step)
  with cell show ?thesis by blast
qed

theorem animate_life_in_bounds_witness:
  "shape 3 4 [[0, 1, 0, 0], [1, 1, 1, 0], [0, 1, 0, 1]]
   \<and> binary [[0, 1, 0, 0], [1, 1, 1, 0], [0, 1, 0, 1]]
   \<and> sint (num_neighbors [[0, 1, 0, 0], [1, 1, 1, 0], [0, 1, 0, 1]] ! 1 ! 1) \<le> 8
   \<and> (\<exists>s'. animate_life 0 \<lparr>grid = [[0, 1, 0, 0], [1, 1, 1, 0], [0, 1, 0, 1]], im_data = []\<rparr> = Inr s'
            \<and> shape 3 4 (grid s') \<and> binary (grid s'))"
proof -
  have h: "shape 3 4 (grid \<lparr>grid = [[0, 1, 0, 0], [1, 1, 1, 0], [0, 1, 0, 1]], im_data = []\<rparr>)"
          "binary (grid \<lparr>grid = [[0, 1, 0, 0], [1, 1, 1, 0], [0, 1, 0, 1]], im_data = []\<rparr>)"
    by (simp_all add: shape_def binary_def)
  from animate_life_in_bounds [OF h, of 0] h show ?thesis
    by simp
qed

subsection \<open>The step is a function of the grid\<close>

text \<open>
  C5. The step is deterministic: with the rule table fixed, the result of \<open>animate_life\<close>
  is determined by the input grid alone. Two applications to the same grid, whatever
  the frame numbers and whatever the image held before, return the same result, error
  or new state.
\<close>

theorem animate_life_deterministic:
  assumes "grid s1 = grid s2"
  shows "animate_life n1 s1 = animate_life n2 s2"
  using assms by (simp add: animate_life_def split: sum.splits)

theorem animate_life_deterministic_witness:
  "animate_life 0 \<lparr>grid = [[0, 1, 0], [0, 1, 0], [0, 1, 0]], im_data = []\<rparr>
   = animate_life 7 \<lparr>grid = [[0, 1, 0], [0, 1, 0], [0, 1, 0]], im_data = [[1]]\<rparr>"
  using animate_life_deterministic
    [of "\<lparr>grid = [[0, 1, 0], [0, 1, 0], [0, 1, 0]], im_data = []\<rparr>"
        "\<lparr>grid = [[0, 1, 0], [0, 1, 0], [0, 1, 0]], im_data = [[1]]\<rparr>" 0 7]
  by simp

subsection \<open>The block is a still life\<close>

lemma wrap_pred: "r < H \<Longrightarrow> wrap (int r - 1) H = (if r = 0 then H - 1 else r - 1)"
proof (cases "r = 0")
  case True
  assume "r < H"
  then have "(- 1) mod int H = int (H - 1)"
    by (simp add: zmod_minus1 of_nat_diff)
  then have "wrap (- 1) H = H - 1"
    by (simp only: wrap_def nat_int)
  with True show ?thesis by simp
next
  case False
  assume "r < H"
  with False have "int r - 1 = int (r - 1)" by (simp add: of_nat_diff)
  moreover have "r - 1 < H" using \<open>r < H\<close> by simp
  ultimately have "wrap (int r - 1) H = r - 1"
    by (simp only: wrap_id)
  with False show ?thesis by simp
qed

lemma wrap_succ: "r < H \<Longrightarrow> wrap (int r + 1) H = (if Suc r = H then 0 else Suc r)"
proof -
  assume "r < H"
  have "(int r + 1) mod int H = int (Suc r mod H)"
    by (simp add: zmod_int add.commute)
  then have "wrap (int r + 1) H = Suc r mod H"
    by (simp only: wrap_def nat_int)
  with \<open>r < H\<close> show ?thesis by (auto simp: mod_Suc)
qed

lemma Suc_mod_if: "r < H \<Longrightarrow> Suc r mod H = (if Suc r = H then 0 else Suc r)"
  by (auto simp: mod_Suc)

lemma block_axis:
  assumes "4 \<le> H" "r < H" "r0 < H"
  defines "R \<equiv> \<lambda>x. x = r0 \<or> x = Suc r0 mod H"
  shows "R r \<Longrightarrow> R (wrap (int r - 1) H) \<noteq> R (wrap (int r + 1) H)"
    and "\<not> R r \<Longrightarrow> \<not> (R (wrap (int r - 1) H) \<and> R (wrap (int r + 1) H))"
  using assms(1-3)
  unfolding R_def wrap_pred [OF assms(2)] wrap_succ [OF assms(2)] Suc_mod_if [OF assms(3)]
  by (auto split: if_splits)

lemma block_rule:
  fixes ru rr rd cl cc cr :: bool
  assumes "rr \<Longrightarrow> ru \<noteq> rd" "\<not> rr \<Longrightarrow> \<not> (ru \<and> rd)" "cc \<Longrightarrow> cl \<noteq> cr" "\<not> cc \<Longrightarrow> \<not> (cl \<and> cr)"
  shows "rules_at (of_bool (rr \<and> cc))
           (sum_list [of_bool (ru \<and> cc), of_bool (rd \<and> cc), of_bool (rr \<and> cl), of_bool (rr \<and> cr),
                      of_bool (ru \<and> cl), of_bool (ru \<and> cr), of_bool (rd \<and> cl), of_bool (rd \<and> cr)])
         = Inr (of_bool (rr \<and> cc))"
  using assms
  by (cases ru; cases rr; cases rd; cases cl; cases cc; cases cr)
     (simp_all add: rules_at_def rules_def norm_index_def)

lemma collect_map_Inr: "collect (map (\<lambda>x. Inr (f x)) xs) = Inr (map f xs)"
  by (induction xs) simp_all

lemma block_grid_nth:
  "r < H \<Longrightarrow> c < W \<Longrightarrow>
   block_grid H W r0 c0 ! r ! c = of_bool ((r = r0 \<or> r = Suc r0 mod H) \<and> (c = c0 \<or> c = Suc c0 mod W))"
  by (simp add: block_grid_def)

lemma shape_block_grid: "shape H W (block_grid H W r0 c0)"
  by (simp add: block_grid_def shapeI)

lemma moore_count_unfold:
  assumes "r < H" "c < W"
  shows "moore_count H W g r c =
        sum_list [g ! wrap (int r - 1) H ! c, g ! wrap (int r + 1) H ! c,
                  g ! r ! wrap (int c - 1) W, g ! r ! wrap (int c + 1) W,
                  g ! wrap (int r - 1) H ! wrap (int c - 1) W,
                  g ! wrap (int r - 1) H ! wrap (int c + 1) W,
                  g ! wrap (int r + 1) H ! wrap (int c - 1) W,
                  g ! wrap (int r + 1) H ! wrap (int c + 1) W]"
  using assms
  by (simp add: moore_count_def neighbours_def moore_offsets_def wrap_id)


lemma block_cell:
  assumes "4 \<le> H" "4 \<le> W" "r0 < H" "c0 < W" "r < H" "c < W"
  shows "rules_at (block_grid H W r0 c0 ! r ! c) (moore_count H W (block_grid H W r0 c0) r c)
         = Inr (block_grid H W r0 c0 ! r ! c)"
proof -
  have H: "0 < H" and W: "0 < W" using assms by auto
  note lt = assms(5,6) wrap_less [OF H] wrap_less [OF W]
  show ?thesis
    unfolding moore_count_unfold [OF assms(5,6)]
    by (simp only: block_grid_nth lt)
       (rule block_rule [OF block_axis [OF assms(1,5,3)] block_axis [OF assms(2,6,4)]])
qed


lemma map_nth_upt: "length xs = n \<Longrightarrow> map (\<lambda>i. xs ! i) [0..<n] = xs"
  by (rule nth_equalityI) simp_all

lemma sync_step_block:
  assumes "4 \<le> H" "4 \<le> W" "r0 < H" "c0 < W"
  shows "sync_step H W (block_grid H W r0 c0) = Inr (block_grid H W r0 c0)"
proof -
  define g where "g = block_grid H W r0 c0"
  have sh: "shape H W g"
    by (simp add: g_def shape_block_grid)
  have cell: "rules_at (g ! r ! c) (moore_count H W g r c) = Inr (g ! r ! c)" if "r < H" "c < W" for r c
    unfolding g_def by (rule block_cell [OF assms that])
  have row: "collect (map (\<lambda>c. rules_at (g ! r ! c) (moore_count H W g r c)) [0..<W]) = Inr (g ! r)"
    if "r < H" for r
  proof -
    have "map (\<lambda>c. rules_at (g ! r ! c) (moore_count H W g r c)) [0..<W]
        = map (\<lambda>c. Inr (g ! r ! c)) [0..<W]"
      by (rule map_cong [OF refl]) (simp add: cell that)
    then have "collect (map (\<lambda>c. rules_at (g ! r ! c) (moore_count H W g r c)) [0..<W])
        = Inr (map (\<lambda>c. g ! r ! c) [0..<W])"
      by (simp only: collect_map_Inr)
    also have "map (\<lambda>c. g ! r ! c) [0..<W] = g ! r"
      by (rule map_nth_upt [OF shape_nth [OF sh that]])
    finally show ?thesis .
  qed
  have "map (\<lambda>r. collect (map (\<lambda>c. rules_at (g ! r ! c) (moore_count H W g r c)) [0..<W])) [0..<H]
      = map (\<lambda>r. Inr (g ! r)) [0..<H]"
    by (rule map_cong [OF refl]) (simp add: row)
  then have "sync_step H W g = Inr (map (\<lambda>r. g ! r) [0..<H])"
    by (simp only: sync_step_def collect_map_Inr)
  also have "map (\<lambda>r. g ! r) [0..<H] = g"
    by (rule map_nth_upt [OF shape_length [OF sh]])
  finally show ?thesis
    by (simp only: g_def)
qed

text \<open>
  C6. Under the rule table of the script, a grid with at least 4 rows and 4 columns
  whose live cells are exactly one 2 by 2 block (anywhere on the torus, also across an
  edge) is a fixed point of the step: \<open>animate_life\<close> succeeds and the new grid is the
  input grid.
\<close>

theorem block_still_life:
  assumes "4 \<le> H" "4 \<le> W" "r0 < H" "c0 < W" "grid s = block_grid H W r0 c0"
  shows "animate_life n s = Inr \<lparr>grid = grid s, im_data = grid s\<rparr>"
  using assms(5) sync_step_block [OF assms(1-4)]
  by (simp add: animate_life_def rules_index_sync_step [OF shape_block_grid])

theorem block_still_life_witness:
  "block_grid 4 5 3 4 = [[1, 0, 0, 0, 1], [0, 0, 0, 0, 0], [0, 0, 0, 0, 0], [1, 0, 0, 0, 1]]
   \<and> animate_life 0 \<lparr>grid = [[1, 0, 0, 0, 1], [0, 0, 0, 0, 0], [0, 0, 0, 0, 0], [1, 0, 0, 0, 1]],
                      im_data = []\<rparr>
     = Inr \<lparr>grid = [[1, 0, 0, 0, 1], [0, 0, 0, 0, 0], [0, 0, 0, 0, 0], [1, 0, 0, 0, 1]],
            im_data = [[1, 0, 0, 0, 1], [0, 0, 0, 0, 0], [0, 0, 0, 0, 0], [1, 0, 0, 0, 1]]\<rparr>"
proof -
  have b: "block_grid 4 5 3 4 = [[1, 0, 0, 0, 1], [0, 0, 0, 0, 0], [0, 0, 0, 0, 0], [1, 0, 0, 0, 1]]"
    by (simp add: block_grid_def upt_rec)
  from block_still_life
    [of 4 5 3 4 "\<lparr>grid = [[1, 0, 0, 0, 1], [0, 0, 0, 0, 0], [0, 0, 0, 0, 0], [1, 0, 0, 0, 1]],
                   im_data = []\<rparr>" 0]
  show ?thesis by (simp add: b)
qed

subsection \<open>The rule table is Conway's\<close>

text \<open>
  C1. The rule table is Conway's: for each of the two cell states and each neighbour
  count from 0 to 8, a dead cell's next state is alive exactly when the count is 3, and a
  live cell's next state is alive exactly when the count is 2 or 3; otherwise dead.
\<close>

theorem rules_conway:
  "list_all (\<lambda>n. rules_at 0 (word_of_nat n) = Inr (if n = 3 then 1 else 0)
               \<and> rules_at 1 (word_of_nat n) = Inr (if n = 2 \<or> n = 3 then 1 else 0))
            [0, 1, 2, 3, 4, 5, 6, 7, 8]"
  by (simp add: rules_at_def rules_def norm_index_def)

theorem rules_conway_witness:
  "rules_at 0 3 = Inr 1 \<and> rules_at 0 2 = Inr 0 \<and> rules_at 1 2 = Inr 1 \<and> rules_at 1 4 = Inr 0"
  using rules_conway by simp

subsection \<open>Usage errors\<close>

lemma main_Exit_iff:
  "(\<exists>out status. main str_upper args = Exit out status)
   \<longleftrightarrow> (length args \<noteq> 2 \<or> str_upper (args ! 1) \<notin> set valid_patterns)"
  by (auto simp: main_def Let_def split: sum.splits prod.splits if_splits)

text \<open>
  C7, as the script behaves. When the pattern argument is missing (or \<open>sys.argv\<close> has
  any length other than 2), or its upper-case form is not one of the valid patterns,
  the script prints the request and the list of valid patterns and ends with
  \<open>sys.exit()\<close>, that is with exit status 0; nothing is seeded, stepped or saved. The
  script ends through \<open>sys.exit\<close> in no other case.
\<close>

theorem main_usage_error:
  "(length args \<noteq> 2 \<or> str_upper (args ! 1) \<notin> set valid_patterns)
   \<longleftrightarrow> main str_upper args =
         Exit [PStr ''Please provide a pattern from the list below as an argument:'',
               PList [''SHUTTLES'', ''BRAIN'']] 0"
proof
  assume "length args \<noteq> 2 \<or> str_upper (args ! 1) \<notin> set valid_patterns"
  then show "main str_upper args =
         Exit [PStr ''Please provide a pattern from the list below as an argument:'',
               PList [''SHUTTLES'', ''BRAIN'']] 0"
    by (auto simp: main_def usage_def valid_patterns_def)
next
  assume "main str_upper args =
         Exit [PStr ''Please provide a pattern from the list below as an argument:'',
               PList [''SHUTTLES'', ''BRAIN'']] 0"
  then have "\<exists>out status. main str_upper args = Exit out status" by blast
  then show "length args \<noteq> 2 \<or> str_upper (args ! 1) \<notin> set valid_patterns"
    by (simp only: main_Exit_iff)
qed

theorem main_usage_error_witness:
  "upper ([''make_img.py'', ''glider''] ! 1) \<notin> set valid_patterns
   \<and> main upper [''make_img.py'', ''glider''] =
       Exit [PStr ''Please provide a pattern from the list below as an argument:'',
             PList [''SHUTTLES'', ''BRAIN'']] 0"
proof -
  have "upper ([''make_img.py'', ''glider''] ! 1) \<notin> set valid_patterns"
    by (simp add: upper_def upper_char_def valid_patterns_def)
  then show ?thesis
    using main_usage_error [of "[''make_img.py'', ''glider'']" upper] by simp
qed

text \<open>
  The specification asks for a non-zero exit status. Without an argument the script
  ends with status 0.
\<close>

theorem main_usage_exit_status_zero:
  "main upper [''make_img.py''] =
     Exit [PStr ''Please provide a pattern from the list below as an argument:'',
           PList [''SHUTTLES'', ''BRAIN'']] 0"
  by (simp add: main_def usage_def valid_patterns_def)

subsection \<open>Seeding\<close>

lemma norm_index_Inr:
  assumes "- int n \<le> i" "i < int n"
  shows "norm_index i n = Inr (wrap i n)"
proof (cases "i < 0")
  case True
  have "i mod int n = (i + int n) mod int n" by simp
  also have "\<dots> = i + int n"
    using True assms by (intro mod_pos_pos_trivial) simp_all
  finally show ?thesis
    using True assms by (simp add: norm_index_def wrap_def)
next
  case False
  then have "i mod int n = i"
    using assms by (intro mod_pos_pos_trivial) simp_all
  then show ?thesis
    using False assms by (simp add: norm_index_def wrap_def)
qed

lemma norm_index_out: "\<not> (- int n \<le> i \<and> i < int n) \<Longrightarrow> norm_index i n = Inl IndexError"
  by (simp add: norm_index_def)

lemma in_range_fits:
  assumes "- int n \<le> i" "i < int n" "n < 2 ^ 63"
  shows "fits_intp i"
proof -
  have "int n < 2 ^ 63" using assms(3) by simp
  with assms(1,2) show ?thesis by (simp add: fits_intp_def)
qed

lemma set_cell_Inr:
  assumes "shape H W g" "- int H \<le> i" "i < int H" "- int W \<le> j" "j < int W"
    and "fits_intp i" "fits_intp j"
  shows "set_cell g i j v = Inr (g[wrap i H := (g ! wrap i H)[wrap j W := v]])"
proof -
  have H: "0 < H" using assms by auto
  have "length (g ! wrap i H) = W"
    using assms(1) H by (simp add: shape_nth wrap_less)
  then show ?thesis
    using assms by (simp add: set_cell_def norm_index_Inr shape_length)
qed

lemma set_cell_IndexError:
  assumes "shape H W g" "0 < H" "fits_intp i" "fits_intp j"
  shows "set_cell g i j v = Inl IndexError
         \<longleftrightarrow> \<not> (- int H \<le> i \<and> i < int H \<and> - int W \<le> j \<and> j < int W)"
proof (cases "- int H \<le> i \<and> i < int H")
  case True
  show ?thesis
  proof (cases "- int W \<le> j \<and> j < int W")
    case True
    with \<open>- int H \<le> i \<and> i < int H\<close> show ?thesis
      using set_cell_Inr [OF assms(1) _ _ _ _ assms(3,4), of v] by simp
  next
    case False
    have "length (g ! wrap i H) = W"
      using assms by (simp add: shape_nth wrap_less)
    with False True show ?thesis
      using assms by (simp add: set_cell_def norm_index_Inr norm_index_out shape_length)
  qed
next
  case False
  then have "set_cell g i j v = Inl IndexError"
    using assms by (simp add: set_cell_def norm_index_out shape_length)
  with False show ?thesis by blast
qed

lemma set_cell_conversion:
  "set_cell g i j v = Inl IndexConversionError \<longleftrightarrow> \<not> fits_intp i \<or> \<not> fits_intp j"
  by (auto simp: set_cell_def norm_index_def split: sum.splits)

lemma set_cell_raises:
  assumes "shape H W g" "0 < H" "H < 2 ^ 63" "W < 2 ^ 63"
  shows "(\<exists>e. set_cell g i j v = Inl e)
         \<longleftrightarrow> \<not> (- int H \<le> i \<and> i < int H \<and> - int W \<le> j \<and> j < int W)"
proof (cases "fits_intp i \<and> fits_intp j")
  case True
  then have f: "fits_intp i" "fits_intp j" by simp_all
  have "(\<exists>e. set_cell g i j v = Inl e) \<longleftrightarrow> set_cell g i j v = Inl IndexError"
  proof
    assume "\<exists>e. set_cell g i j v = Inl e"
    then obtain e where e: "set_cell g i j v = Inl e" ..
    with f have "e \<noteq> IndexConversionError"
      using set_cell_conversion [of g i j v] by auto
    then have "e = IndexError" by (cases e) simp_all
    with e show "set_cell g i j v = Inl IndexError" by simp
  qed blast
  then show ?thesis
    by (simp only: set_cell_IndexError [OF assms(1,2) f])
next
  case False
  then have "set_cell g i j v = Inl IndexConversionError"
    by (simp add: set_cell_def)
  moreover have "\<not> (- int H \<le> i \<and> i < int H \<and> - int W \<le> j \<and> j < int W)"
    using False in_range_fits [OF _ _ assms(3), of i] in_range_fits [OF _ _ assms(4), of j]
    by blast
  ultimately show ?thesis by simp
qed

lemma shape_update:
  assumes "shape H W g" "r < H"
  shows "shape H W (g[r := (g ! r)[c := v]])"
  using assms by (auto simp: shape_nth shape_length nth_list_update intro!: shapeI)

lemma bake_single: "bake g [(i, j)] = set_cell g i j 1"
  by (simp split: sum.splits)

lemma wrap_zero: "wrap 0 n = 0"
  by (simp add: wrap_def)

lemma wrap_minus1: "0 < n \<Longrightarrow> wrap (- 1) n = n - 1"
  using wrap_pred [of 0 n] by simp

lemma wrap_last: "0 < n \<Longrightarrow> wrap (int n - 1) n = n - 1"
  using wrap_pred [of "n - 1" n] wrap_id [of "n - 1" n] by (simp add: of_nat_diff)

lemma update_nth_nth:
  "shape H W g \<Longrightarrow> r < H \<Longrightarrow> c < W \<Longrightarrow> g[r := (g ! r)[c := v]] ! r ! c = v"
  by (simp add: shape_nth shape_length)

text \<open>
  C8, as the script behaves. Take a grid of shape \<open>(H, W)\<close> (its sizes, as those of every
  numpy array, below \<open>2^63\<close>). Seeding one coordinate \<open>(i, j)\<close> raises an exception
  exactly when \<open>i\<close> is outside \<open>[-H, H)\<close> or \<open>j\<close> is outside \<open>[-W, W)\<close>. When both \<open>i\<close> and \<open>j\<close>
  fit a 64-bit signed integer, that exception is \<open>IndexError\<close>; when one does not, numpy
  raises while converting it. Seeding at \<open>(0, 0)\<close> and at \<open>(H - 1, W - 1)\<close> succeeds and
  sets those cells to 1, seeding at \<open>(H, 0)\<close> raises \<open>IndexError\<close>, and seeding at
  \<open>(-1, 0)\<close> succeeds and sets cell \<open>(H - 1, 0)\<close>: a negative coordinate counts from the
  end of its axis.
\<close>

theorem seeding_bounds:
  assumes "shape H W g" "0 < H" "0 < W" "H < 2 ^ 63" "W < 2 ^ 63"
  shows "((\<exists>e. bake g [(i, j)] = Inl e)
            \<longleftrightarrow> \<not> (- int H \<le> i \<and> i < int H \<and> - int W \<le> j \<and> j < int W))
       \<and> (fits_intp i \<and> fits_intp j \<longrightarrow>
            (bake g [(i, j)] = Inl IndexError
              \<longleftrightarrow> \<not> (- int H \<le> i \<and> i < int H \<and> - int W \<le> j \<and> j < int W)))
       \<and> (bake g [(i, j)] = Inl IndexConversionError \<longleftrightarrow> \<not> fits_intp i \<or> \<not> fits_intp j)
       \<and> (\<exists>g'. bake g [(0, 0)] = Inr g' \<and> g' ! 0 ! 0 = 1)
       \<and> (\<exists>g'. bake g [(int H - 1, int W - 1)] = Inr g' \<and> g' ! (H - 1) ! (W - 1) = 1)
       \<and> bake g [(int H, 0)] = Inl IndexError
       \<and> (\<exists>g'. bake g [(- 1, 0)] = Inr g' \<and> g' ! (H - 1) ! 0 = 1)"
proof -
  note upd = update_nth_nth [OF assms(1)]
  have iH: "int H < 2 ^ 63" and iW: "int W < 2 ^ 63"
    using assms(4,5) by simp_all
  have a: "(\<exists>e. bake g [(i, j)] = Inl e)
            \<longleftrightarrow> \<not> (- int H \<le> i \<and> i < int H \<and> - int W \<le> j \<and> j < int W)"
    unfolding bake_single by (rule set_cell_raises [OF assms(1,2,4,5)])
  have a': "fits_intp i \<and> fits_intp j \<longrightarrow>
            (bake g [(i, j)] = Inl IndexError
              \<longleftrightarrow> \<not> (- int H \<le> i \<and> i < int H \<and> - int W \<le> j \<and> j < int W))"
    unfolding bake_single using set_cell_IndexError [OF assms(1,2), of i j 1] by blast
  have a'': "bake g [(i, j)] = Inl IndexConversionError \<longleftrightarrow> \<not> fits_intp i \<or> \<not> fits_intp j"
    unfolding bake_single by (rule set_cell_conversion)
  have "set_cell g 0 0 1 = Inr (g[wrap 0 H := (g ! wrap 0 H)[wrap 0 W := 1]])"
    using assms by (intro set_cell_Inr) (simp_all add: fits_intp_def)
  then have b: "\<exists>g'. bake g [(0, 0)] = Inr g' \<and> g' ! 0 ! 0 = 1"
    unfolding bake_single using assms by (simp add: wrap_zero upd)
  have "set_cell g (int H - 1) (int W - 1) 1
        = Inr (g[wrap (int H - 1) H := (g ! wrap (int H - 1) H)[wrap (int W - 1) W := 1]])"
    using assms iH iW by (intro set_cell_Inr) (simp_all add: fits_intp_def)
  then have c: "\<exists>g'. bake g [(int H - 1, int W - 1)] = Inr g' \<and> g' ! (H - 1) ! (W - 1) = 1"
    unfolding bake_single using assms by (simp add: wrap_last upd)
  have "fits_intp (int H)" "fits_intp 0"
    using iH by (simp_all add: fits_intp_def)
  then have d: "bake g [(int H, 0)] = Inl IndexError"
    unfolding bake_single using assms by (simp add: set_cell_IndexError [OF assms(1,2)])
  have "set_cell g (- 1) 0 1 = Inr (g[wrap (- 1) H := (g ! wrap (- 1) H)[wrap 0 W := 1]])"
    using assms by (intro set_cell_Inr) (simp_all add: fits_intp_def)
  then have e: "\<exists>g'. bake g [(- 1, 0)] = Inr g' \<and> g' ! (H - 1) ! 0 = 1"
    unfolding bake_single using assms by (simp add: wrap_minus1 wrap_zero upd)
  from a a' a'' b c d e show ?thesis by blast
qed

theorem seeding_bounds_witness:
  "shape 2 3 [[0, 0, 0], [0, 0, 0]]
   \<and> bake [[0, 0, 0], [0, 0, 0]] [(2, 0)] = Inl IndexError
   \<and> bake [[0, 0, 0], [0, 0, 0]] [(2 ^ 63, 0)] = Inl IndexConversionError
   \<and> bake [[0, 0, 0], [0, 0, 0]] [(1, 2)] = Inr [[0, 0, 0], [0, 0, 1]]
   \<and> bake [[0, 0, 0], [0, 0, 0]] [(- 1, 0)] = Inr [[0, 0, 0], [1, 0, 0]]"
  using seeding_bounds [of 2 3 "[[0, 0, 0], [0, 0, 0]]" 2 0]
  by (simp add: shape_def set_cell_def norm_index_def fits_intp_def)

text \<open>
  The specification has seeding at \<open>(-1, 0)\<close> fail. On a 3 by 3 grid it succeeds and
  sets the first cell of the last row.
\<close>

theorem seeding_negative_wraps:
  "bake [[0, 0, 0], [0, 0, 0], [0, 0, 0]] [(- 1, 0)] = Inr [[0, 0, 0], [0, 0, 0], [1, 0, 0]]"
  by (simp add: set_cell_def norm_index_def fits_intp_def)

subsection \<open>The pattern catalogs\<close>

lemma bake_in_bounds:
  assumes "shape H W g" "list_all (\<lambda>(i, j). 0 \<le> i \<and> i < int H \<and> 0 \<le> j \<and> j < int W) cells"
    and "H < 2 ^ 63" "W < 2 ^ 63"
  shows "\<exists>g'. bake g cells = Inr g' \<and> shape H W g'"
  using assms
proof (induction cells arbitrary: g)
  case Nil
  then show ?case by simp
next
  case (Cons ij cells)
  obtain i j where ij: "ij = (i, j)" by (cases ij)
  from Cons.prems ij have rng: "0 \<le> i" "i < int H" "0 \<le> j" "j < int W"
    and rest: "list_all (\<lambda>(i, j). 0 \<le> i \<and> i < int H \<and> 0 \<le> j \<and> j < int W) cells"
    by simp_all
  have H: "0 < H" using rng by auto
  have "fits_intp i" "fits_intp j"
    using rng Cons.prems(3,4) by (auto intro: in_range_fits)
  then have sc: "set_cell g i j 1 = Inr (g[wrap i H := (g ! wrap i H)[wrap j W := 1]])"
    using Cons.prems(1) rng by (intro set_cell_Inr) simp_all
  have "shape H W (g[wrap i H := (g ! wrap i H)[wrap j W := 1]])"
    using Cons.prems(1) H by (intro shape_update) (simp_all add: wrap_less)
  from Cons.IH [OF this rest Cons.prems(3,4)] show ?case
    by (simp add: ij sc)
qed

lemma shape_initial_grid: "shape GRID_SIZE GRID_SIZE initial_grid"
  by (simp add: initial_grid_def shape_def list_all_length)

text \<open>
  C10. Every coordinate pair of \<open>shuttle_cells\<close> and of \<open>brain_cells\<close> has its row and
  its column in \<open>[0, 100)\<close>: no index is negative, so none counts from the end, and
  seeding the initial 100 by 100 grid with either pattern raises no error and returns a
  100 by 100 grid.
\<close>

theorem catalog_in_bounds:
  "list_all (\<lambda>(i, j). 0 \<le> i \<and> i < int GRID_SIZE \<and> 0 \<le> j \<and> j < int GRID_SIZE)
            (shuttle_cells @ brain_cells)
   \<and> (\<exists>g. bake initial_grid shuttle_cells = Inr g \<and> shape GRID_SIZE GRID_SIZE g)
   \<and> (\<exists>g. bake initial_grid brain_cells = Inr g \<and> shape GRID_SIZE GRID_SIZE g)"
proof -
  have s: "list_all (\<lambda>(i, j). 0 \<le> i \<and> i < int GRID_SIZE \<and> 0 \<le> j \<and> j < int GRID_SIZE) shuttle_cells"
    by (simp add: shuttle_cells_def GRID_SIZE_def)
  have b: "list_all (\<lambda>(i, j). 0 \<le> i \<and> i < int GRID_SIZE \<and> 0 \<le> j \<and> j < int GRID_SIZE) brain_cells"
    by (simp add: brain_cells_def GRID_SIZE_def)
  have n: "GRID_SIZE < 2 ^ 63"
    by (simp add: GRID_SIZE_def)
  from s b bake_in_bounds [OF shape_initial_grid s n n] bake_in_bounds [OF shape_initial_grid b n n]
  show ?thesis by simp
qed

theorem catalog_in_bounds_witness:
  "(\<exists>g. bake initial_grid brain_cells = Inr g) \<and> (\<exists>g. bake initial_grid shuttle_cells = Inr g)"
  using catalog_in_bounds by blast

subsection \<open>The frames of a run\<close>










end
